theory Spec2Isabelle
  imports
    Complex_Main
    "HOL-Library.Multiset"
    "HOL-Library.Char_ord"
    "HOL-Library.List_Lexorder"
    "HOL-Library.Product_Lexorder"
begin

section \<open>Patents per million: the transform of innovationsperMvers2.py\<close>

text \<open>
  The script is a straight-line pandas program. Each data frame is modelled as the list of
  its rows, each column operation as a function on that list, in the order of the script.

  Numbers: a pandas float column holds a number or NaN. A cell is a \<open>real option\<close>, with
  \<open>None\<close> for NaN, and arithmetic is exact: the model follows the script on the values the
  floats stand for, and does not follow the binary rounding or the overflow of a ratio.
  The year column is modelled further: it may hold an infinite float, and the cast to a
  64-bit integer is bounded.
\<close>

subsection \<open>Data model\<close>

text \<open>
  The TIME_PERIOD column as it is read from the CSV file: a cell that pandas reads as a
  finite number, a cell that it reads as an infinite float (the text \<open>inf\<close>, with or
  without a sign), a text that \<open>pd.to_numeric\<close> cannot parse, or an empty cell.
\<close>

datatype time_field = Numeric real | Infinite | NonNumeric string | Empty

text \<open>A row of the input file (\<open>df\<close>).\<close>

record observation =
  COUNTRY :: string
  Country :: string
  TIME_PERIOD :: time_field
  OBS_VALUE :: "real option"

text \<open>A row of \<open>merged\<close> after the left join: the population is NaN where no entry matched.\<close>

record merged_row = observation +
  Population_millions :: "real option"

text \<open>A row of \<open>merged\<close> with the ratio column, which is also a row of the CSV written and re-read.\<close>

record ratio_row = merged_row +
  Patents_per_million :: "real option"

text \<open>The lookup table of line 25, a dict, as an association list in the order of the literal.\<close>

definition population_millions :: "(string \<times> real) list" where
  "population_millions =
     [(''AUS'', 27), (''DEU'', 83), (''CHE'', 9), (''ESP'', 48),
      (''FRA'', 68), (''GBR'', 68), (''JPN'', 125), (''KOR'', 52),
      (''NLD'', 18), (''USA'', 333), (''WXOECD'', 1350)]"

subsection \<open>Normalizer (lines 34 to 37)\<close>

text \<open>
  \<open>df.merge(pop_df, on="COUNTRY", how="left")\<close>: the keys of \<open>pop_df\<close> come from a dict and
  are unique, so every row of \<open>df\<close> gives one row, in the order of \<open>df\<close>.
\<close>

definition merge_left :: "observation list \<Rightarrow> (string \<rightharpoonup> real) \<Rightarrow> merged_row list" where
  "merge_left df pop =
     map (\<lambda>r. \<lparr>COUNTRY = COUNTRY r, Country = Country r, TIME_PERIOD = TIME_PERIOD r,
               OBS_VALUE = OBS_VALUE r, Population_millions = pop (COUNTRY r)\<rparr>) df"

definition dropna_population :: "merged_row list \<Rightarrow> merged_row list" where
  "dropna_population rows = filter (\<lambda>r. Population_millions r \<noteq> None) rows"

text \<open>\<open>merged[merged["Population_millions"] > 0]\<close>: a comparison with NaN is false.\<close>

definition positive_population :: "merged_row list \<Rightarrow> merged_row list" where
  "positive_population rows =
     filter (\<lambda>r. case Population_millions r of None \<Rightarrow> False | Some p \<Rightarrow> 0 < p) rows"

text \<open>
  Division of two float cells: NaN if either is NaN. The divisor is never 0 where the
  script divides (see \<open>positive_population\<close>), so the quotient by 0 is not modelled.
\<close>

fun fdiv :: "real option \<Rightarrow> real option \<Rightarrow> real option" where
  "fdiv (Some a) (Some b) = Some (a / b)"
| "fdiv _ _ = None"

definition add_ratio :: "merged_row list \<Rightarrow> ratio_row list" where
  "add_ratio rows =
     map (\<lambda>r. \<lparr>COUNTRY = COUNTRY r, Country = Country r, TIME_PERIOD = TIME_PERIOD r,
               OBS_VALUE = OBS_VALUE r, Population_millions = Population_millions r,
               Patents_per_million = fdiv (OBS_VALUE r) (Population_millions r)\<rparr>) rows"

text \<open>The value of \<open>merged\<close> after line 37.\<close>

definition merged :: "observation list \<Rightarrow> (string \<rightharpoonup> real) \<Rightarrow> ratio_row list" where
  "merged df pop = add_ratio (positive_population (dropna_population (merge_left df pop)))"

text \<open>What the specification describes: the rows kept, and the row each of them becomes.\<close>

definition has_positive_population :: "(string \<rightharpoonup> real) \<Rightarrow> observation \<Rightarrow> bool" where
  "has_positive_population pop r = (case pop (COUNTRY r) of None \<Rightarrow> False | Some p \<Rightarrow> 0 < p)"

definition per_capita_row :: "real \<Rightarrow> observation \<Rightarrow> ratio_row" where
  "per_capita_row p r =
     \<lparr>COUNTRY = COUNTRY r, Country = Country r, TIME_PERIOD = TIME_PERIOD r,
      OBS_VALUE = OBS_VALUE r, Population_millions = Some p,
      Patents_per_million = map_option (\<lambda>v. v / p) (OBS_VALUE r)\<rparr>"

subsection \<open>Aggregator and pivot (lines 47 to 64)\<close>

text \<open>
  Line 42 writes \<open>merged\<close> to a CSV file and line 47 reads it back. pandas writes a float
  with the digits that read back to the same float, so \<open>df_ratio\<close> holds the rows of
  \<open>merged\<close>; the model passes them on unchanged.

  \<open>pd.to_numeric(..., errors="coerce")\<close> turns what is not a number into NaN
  (\<open>None\<close>); an infinite float is a number and stays.
\<close>

datatype year_value = Finite real | NonFinite

fun to_numeric :: "time_field \<Rightarrow> year_value option" where
  "to_numeric (Numeric t) = Some (Finite t)"
| "to_numeric Infinite = Some NonFinite"
| "to_numeric (NonNumeric s) = None"
| "to_numeric Empty = None"

type_synonym group_key = "string \<times> int"

text \<open>
  Lines 50 and 51: coerce the year and drop the rows where the year or the ratio is NaN.
  Only the three columns that line 56 uses are kept: COUNTRY, TIME_PERIOD and
  Patents_per_million.
\<close>

definition dropna_year_ratio :: "ratio_row list \<Rightarrow> (string \<times> year_value \<times> real) list" where
  "dropna_year_ratio rows =
     List.map_filter
       (\<lambda>r. case (to_numeric (TIME_PERIOD r), Patents_per_million r) of
               (Some t, Some v) \<Rightarrow> Some (COUNTRY r, t, v)
             | _ \<Rightarrow> None) rows"

datatype py_error = ValueError | IntCastingNaNError

text \<open>
  Line 52, \<open>astype(int)\<close> on the float column. pandas raises IntCastingNaNError if a value
  of the column is not finite. A finite value is truncated towards zero to a 64-bit
  integer; a value outside the range of that type becomes \<open>- 2 ^ 63\<close>, which is what the
  conversion gives on x86-64.
\<close>

fun astype_int :: "year_value \<Rightarrow> py_error + int" where
  "astype_int (Finite t) =
     (let z = (if 0 \<le> t then \<lfloor>t\<rfloor> else \<lceil>t\<rceil>)
      in Inr (if - (2 ^ 63) \<le> z \<and> z < 2 ^ 63 then z else - (2 ^ 63)))"
| "astype_int NonFinite = Inl IntCastingNaNError"

fun astype_int_column ::
  "(string \<times> year_value \<times> real) list \<Rightarrow> py_error + (group_key \<times> real) list" where
  "astype_int_column [] = Inr []"
| "astype_int_column ((c, t, v) # rows) =
     (case astype_int t of
        Inl e \<Rightarrow> Inl e
      | Inr y \<Rightarrow>
          (case astype_int_column rows of
             Inl e \<Rightarrow> Inl e
           | Inr rest \<Rightarrow> Inr (((c, y), v) # rest)))"

text \<open>Lines 50 to 52.\<close>

definition coerce_and_dropna :: "ratio_row list \<Rightarrow> py_error + (group_key \<times> real) list" where
  "coerce_and_dropna rows = astype_int_column (dropna_year_ratio rows)"

definition mean :: "real list \<Rightarrow> real" where
  "mean vs = sum_list vs / real (length vs)"

text \<open>
  \<open>groupby(["COUNTRY", "TIME_PERIOD"], as_index=False)[...].mean()\<close>: one row for each key,
  the keys in ascending order (\<open>sort=True\<close> is the default of groupby).
\<close>

definition group_values :: "(group_key \<times> real) list \<Rightarrow> group_key \<Rightarrow> real list" where
  "group_values rows k = map snd (filter (\<lambda>r. fst r = k) rows)"

definition groupby_mean :: "(group_key \<times> real) list \<Rightarrow> (group_key \<times> real) list" where
  "groupby_mean rows =
     map (\<lambda>k. (k, mean (group_values rows k))) (sort (remdups (map fst rows)))"

text \<open>
  The pivot table: the row labels, the column labels, and the cell at a pair of labels
  (NaN where the pair has no row).
\<close>

record pivot_table =
  index :: "string list"
  columns :: "int list"
  cell :: "string \<Rightarrow> int \<Rightarrow> real option"

text \<open>
  \<open>DataFrame.pivot\<close> raises ValueError when two rows have the same pair of labels; it
  returns both axes sorted.
\<close>

definition pivot :: "(group_key \<times> real) list \<Rightarrow> py_error + pivot_table" where
  "pivot rows =
     (if \<not> distinct (map fst rows) then Inl ValueError
      else Inr \<lparr>index = sort (remdups (map (\<lambda>r. fst (fst r)) rows)),
                columns = sort (remdups (map (\<lambda>r. snd (fst r)) rows)),
                cell = (\<lambda>c y. map_of rows (c, y))\<rparr>)"

definition sort_index :: "pivot_table \<Rightarrow> pivot_table" where
  "sort_index p = p\<lparr>index := sort (index p)\<rparr>"

text \<open>Lines 55 to 61 on the rows of line 52, and lines 47 to 61 as a whole.\<close>

definition pivot_of :: "(group_key \<times> real) list \<Rightarrow> py_error + pivot_table" where
  "pivot_of rows =
     (case pivot (groupby_mean rows) of Inl e \<Rightarrow> Inl e | Inr p \<Rightarrow> Inr (sort_index p))"

definition aggregate :: "ratio_row list \<Rightarrow> py_error + pivot_table" where
  "aggregate df_ratio =
     (case coerce_and_dropna df_ratio of Inl e \<Rightarrow> Inl e | Inr rows \<Rightarrow> pivot_of rows)"

definition years :: "pivot_table \<Rightarrow> int list" where
  "years p = sort (columns p)"

subsection \<open>Category sorter (lines 70 to 90)\<close>

text \<open>
  \<open>Series.sort_values(ascending=False)\<close> is called with its default \<open>kind="quicksort"\<close>
  and \<open>na_position="last"\<close>. It returns the entries reordered so that the values descend
  and the NaN come last; which of two equal values comes first is not fixed by that call
  (only \<open>kind="stable"\<close> or \<open>"mergesort"\<close> would fix it). So the call is modelled by the set
  of results it may give: \<open>sort_values_index idx val cats\<close> says that \<open>cats\<close> is a
  possible \<open>.sort_values(ascending=False).index.tolist()\<close> of the series with the
  labels \<open>idx\<close> and the value \<open>val c\<close> at the label \<open>c\<close>.
\<close>

fun na_last_ge :: "real option \<Rightarrow> real option \<Rightarrow> bool" where
  "na_last_ge _ None = True"
| "na_last_ge None (Some b) = False"
| "na_last_ge (Some a) (Some b) = (b \<le> a)"

definition descending_na_last :: "real option list \<Rightarrow> bool" where
  "descending_na_last vs = sorted_wrt na_last_ge vs"

definition sort_values_index ::
  "string list \<Rightarrow> (string \<Rightarrow> real option) \<Rightarrow> string list \<Rightarrow> bool" where
  "sort_values_index idx val cats =
     (mset cats = mset idx \<and> descending_na_last (map val cats))"

text \<open>
  One of the possible results: the stable one, by insertion. It shows that the call
  always has a result.
\<close>

fun insert_descending :: "(string \<Rightarrow> real option) \<Rightarrow> string \<Rightarrow> string list \<Rightarrow> string list" where
  "insert_descending val c [] = [c]"
| "insert_descending val c (d # ds) =
     (if na_last_ge (val c) (val d) then c # d # ds else d # insert_descending val c ds)"

definition stable_sort_descending :: "(string \<Rightarrow> real option) \<Rightarrow> string list \<Rightarrow> string list" where
  "stable_sort_descending val idx = foldr (insert_descending val) idx []"


text \<open>\<open>pivot.sum(axis=1, skipna=True)\<close>: the sum of the cells of a row that are not NaN.\<close>

definition sum_axis1 :: "pivot_table \<Rightarrow> string \<Rightarrow> real option" where
  "sum_axis1 p c = Some (sum_list (List.map_filter (cell p c) (columns p)))"


text \<open>Python's \<open>str.startswith\<close>, \<open>str.split(":", 1)\<close>, a list index, \<open>max\<close> and \<open>int\<close>.\<close>

definition startswith :: "string \<Rightarrow> string \<Rightarrow> bool" where
  "startswith s p = (take (length p) s = p)"

definition split_colon_1 :: "string \<Rightarrow> string list" where
  "split_colon_1 s =
     (case dropWhile (\<lambda>c. c \<noteq> CHR '':'') s of
        [] \<Rightarrow> [s]
      | _ # rest \<Rightarrow> [takeWhile (\<lambda>c. c \<noteq> CHR '':'') s, rest])"

definition item :: "'a list \<Rightarrow> nat \<Rightarrow> 'a option" where
  "item xs i = (if i < length xs then Some (xs ! i) else None)"

fun py_max :: "int list \<Rightarrow> int option" where
  "py_max [] = None"
| "py_max (y # ys) = Some (fold max ys y)"

text \<open>
  \<open>int(s)\<close> on a string, \<open>None\<close> for ValueError: white space around, an optional sign,
  then decimal digits, where single underscores may stand between digits. A character
  is a code point below 256. Of these, \<open>int\<close> skips the code points 9 to 13 and 32, and
  133 and 160 (which it first turns into a space); the code points 28 to 31 are not
  skipped, and the only digits are 0 to 9. A text with more than 4300 digits is
  rejected (the default limit of Python 3.11).
\<close>

definition is_space :: "char \<Rightarrow> bool" where
  "is_space c =
     (let n = (of_char c :: nat) in (9 \<le> n \<and> n \<le> 13) \<or> n = 32 \<or> n = 133 \<or> n = 160)"

definition strip :: "string \<Rightarrow> string" where
  "strip s = rev (dropWhile is_space (rev (dropWhile is_space s)))"

definition digit_value :: "char \<Rightarrow> int option" where
  "digit_value c =
     (let n = (of_char c :: nat) in if 48 \<le> n \<and> n \<le> 57 then Some (int n - 48) else None)"

fun digits :: "bool \<Rightarrow> int \<Rightarrow> string \<Rightarrow> int option" where
  "digits after_digit acc [] = (if after_digit then Some acc else None)"
| "digits after_digit acc (c # cs) =
     (if c = CHR ''_'' then (if after_digit then digits False acc cs else None)
      else case digit_value c of
             None \<Rightarrow> None
           | Some d \<Rightarrow> digits True (acc * 10 + d) cs)"

definition py_int :: "string \<Rightarrow> int option" where
  "py_int s =
     (case strip s of
        [] \<Rightarrow> None
      | c # cs \<Rightarrow>
          (let body = (if c = CHR ''-'' \<or> c = CHR ''+'' then cs else c # cs)
           in if 4300 < length (filter (\<lambda>d. digit_value d \<noteq> None) body) then None
              else if c = CHR ''-'' then map_option uminus (digits False 0 body)
              else digits False 0 body))"

text \<open>
  Lines 77 to 82: the year to sort by. The \<open>try\<close> block fails (\<open>None\<close>) when the list
  index or \<open>int\<close> raises, and \<open>except Exception\<close> catches both.
\<close>

definition requested_year :: "string \<Rightarrow> int option" where
  "requested_year SORT_MODE =
     (case item (split_colon_1 SORT_MODE) 1 of None \<Rightarrow> None | Some t \<Rightarrow> py_int t)"

definition sort_year :: "string \<Rightarrow> pivot_table \<Rightarrow> int option" where
  "sort_year SORT_MODE p =
     (let y = (case requested_year SORT_MODE of
                 Some n \<Rightarrow> Some n
               | None \<Rightarrow> py_max (years p))
      in case y of
           None \<Rightarrow> py_max (years p)
         | Some n \<Rightarrow> if n \<notin> set (columns p) then py_max (years p) else Some n)"

text \<open>
  Lines 85 to 89: for a row, the last cell that is not NaN with the years ascending, NaN
  if the row has none.
\<close>

definition latest_vals :: "pivot_table \<Rightarrow> string \<Rightarrow> real option" where
  "latest_vals p c =
     (case List.map_filter (cell p c) (sort (columns p)) of
        [] \<Rightarrow> None
      | v # vs \<Rightarrow> Some (last (v # vs)))"

text \<open>
  Lines 72 to 90. \<open>categories SORT_MODE p cats\<close>: the script may bind \<open>categories\<close> to
  \<open>cats\<close> when the pivot table is \<open>p\<close>.
\<close>

definition categories :: "string \<Rightarrow> pivot_table \<Rightarrow> string list \<Rightarrow> bool" where
  "categories SORT_MODE p cats =
     (if SORT_MODE = ''total'' then sort_values_index (index p) (sum_axis1 p) cats
      else if startswith SORT_MODE ''year:'' then
        (case sort_year SORT_MODE p of
           None \<Rightarrow> cats = index p
         | Some y \<Rightarrow> sort_values_index (index p) (\<lambda>c. cell p c y) cats)
      else sort_values_index (index p) (latest_vals p) cats)"

subsection \<open>Series builder (lines 93 to 97)\<close>

text \<open>An entry of a series in \<open>data_by_year\<close>: Python's \<open>None\<close> (JSON null) or a float.\<close>

datatype series_value = Null | Num real

text \<open>
  \<open>round(v, 2)\<close> rounds to the nearest multiple of 0.01, a tie going to the even
  multiple.
\<close>

definition round_half_even :: "real \<Rightarrow> int" where
  "round_half_even x =
     (let f = \<lfloor>x\<rfloor>; d = x - of_int f
      in if d < 1 / 2 then f else if 1 / 2 < d then f + 1 else if even f then f else f + 1)"

definition round2 :: "real \<Rightarrow> real" where
  "round2 x = of_int (round_half_even (x * 100)) / 100"

text \<open>\<open>pivot.reindex(categories)[y]\<close>: NaN for a label that is not in the index.\<close>

definition reindex_column :: "pivot_table \<Rightarrow> string list \<Rightarrow> int \<Rightarrow> real option list" where
  "reindex_column p cats y = map (\<lambda>c. if c \<in> set (index p) then cell p c y else None) cats"

definition series_for_year :: "pivot_table \<Rightarrow> string list \<Rightarrow> int \<Rightarrow> series_value list" where
  "series_for_year p cats y =
     (let s = (if y \<in> set (columns p) then reindex_column p cats y
               else replicate (length cats) None)
      in map (\<lambda>v. case v of None \<Rightarrow> Null | Some x \<Rightarrow> Num (round2 x)) s)"

text \<open>\<open>str(y)\<close> of an integer: its decimal digits, after a minus sign if it is negative.\<close>

definition digit_char :: "nat \<Rightarrow> char" where
  "digit_char d = ''0123456789'' ! d"

function str_nat :: "nat \<Rightarrow> string" where
  "str_nat n = (if n < 10 then [digit_char n] else str_nat (n div 10) @ [digit_char (n mod 10)])"
  by pat_completeness auto
termination
  by (relation "measure id") auto

declare str_nat.simps [simp del]

definition str :: "int \<Rightarrow> string" where
  "str y = (if y < 0 then CHR ''-'' # str_nat (nat (- y)) else str_nat (nat y))"

text \<open>The dict comprehension of line 97: a later entry replaces an earlier one with its key.\<close>

definition data_by_year :: "pivot_table \<Rightarrow> string list \<Rightarrow> (string \<rightharpoonup> series_value list)" where
  "data_by_year p cats =
     fold (\<lambda>y d. d(str y \<mapsto> series_for_year p cats y)) (years p) Map.empty"

subsection \<open>Example inputs\<close>

text \<open>Rows for the script's own table: one country of the table and one that it lacks.\<close>

definition example_df :: "observation list" where
  "example_df =
     [\<lparr>COUNTRY = ''AUS'', Country = ''Australia'', TIME_PERIOD = Numeric 2020,
       OBS_VALUE = Some 54\<rparr>,
      \<lparr>COUNTRY = ''XXX'', Country = ''Nowhere'', TIME_PERIOD = Numeric 2020,
       OBS_VALUE = Some 7\<rparr>]"

text \<open>Rows with a repeated key, a year that is no number and a NaN ratio; rows with unique keys.\<close>

definition df_ratio1 :: "ratio_row list" where
  "df_ratio1 =
     [\<lparr>COUNTRY = ''A'', Country = ''A'', TIME_PERIOD = Numeric 2020, OBS_VALUE = Some 10,
       Population_millions = Some 10, Patents_per_million = Some 1\<rparr>,
      \<lparr>COUNTRY = ''A'', Country = ''A'', TIME_PERIOD = NonNumeric ''n/a'', OBS_VALUE = Some 50,
       Population_millions = Some 10, Patents_per_million = Some 5\<rparr>,
      \<lparr>COUNTRY = ''A'', Country = ''A'', TIME_PERIOD = Numeric 2020, OBS_VALUE = Some 30,
       Population_millions = Some 10, Patents_per_million = Some 3\<rparr>,
      \<lparr>COUNTRY = ''A'', Country = ''A'', TIME_PERIOD = Numeric 2021, OBS_VALUE = None,
       Population_millions = Some 10, Patents_per_million = None\<rparr>]"

text \<open>
  Input rows for the script's own table: one with the year \<open>inf\<close> beside a row with a
  year, and one with the year \<open>1e30\<close>.
\<close>

definition inf_df :: "observation list" where
  "inf_df =
     [\<lparr>COUNTRY = ''AUS'', Country = ''Australia'', TIME_PERIOD = Numeric 2020,
       OBS_VALUE = Some 54\<rparr>,
      \<lparr>COUNTRY = ''AUS'', Country = ''Australia'', TIME_PERIOD = Infinite,
       OBS_VALUE = Some 54\<rparr>]"

definition big_df :: "observation list" where
  "big_df =
     [\<lparr>COUNTRY = ''AUS'', Country = ''Australia'', TIME_PERIOD = Numeric (10 ^ 30),
       OBS_VALUE = Some 54\<rparr>]"

definition unique_rows :: "(group_key \<times> real) list" where
  "unique_rows = [((''B'', 2020), 1), ((''A'', 2021), 2), ((''A'', 2020), 1)]"

text \<open>
  The example of the specification, a table whose two years order the countries
  differently, and a table with no rows.
\<close>

definition spec_df :: "observation list" where
  "spec_df =
     [\<lparr>COUNTRY = ''A'', Country = ''A'', TIME_PERIOD = Numeric 2020, OBS_VALUE = Some 10\<rparr>,
      \<lparr>COUNTRY = ''A'', Country = ''A'', TIME_PERIOD = Numeric 2021, OBS_VALUE = Some 20\<rparr>,
      \<lparr>COUNTRY = ''B'', Country = ''B'', TIME_PERIOD = Numeric 2020, OBS_VALUE = Some 5\<rparr>]"

definition spec_pop :: "string \<rightharpoonup> real" where
  "spec_pop = map_of [(''A'', 10), (''B'', 5)]"

definition spec_pivot :: pivot_table where
  "spec_pivot = projr (aggregate (merged spec_df spec_pop))"

definition tie_ratio :: "ratio_row list" where
  "tie_ratio =
     [\<lparr>COUNTRY = ''A'', Country = ''A'', TIME_PERIOD = Numeric 2020, OBS_VALUE = Some 10,
       Population_millions = Some 10, Patents_per_million = Some 1\<rparr>,
      \<lparr>COUNTRY = ''A'', Country = ''A'', TIME_PERIOD = Numeric 2021, OBS_VALUE = Some 20,
       Population_millions = Some 10, Patents_per_million = Some 2\<rparr>,
      \<lparr>COUNTRY = ''B'', Country = ''B'', TIME_PERIOD = Numeric 2020, OBS_VALUE = Some 10,
       Population_millions = Some 5, Patents_per_million = Some 2\<rparr>,
      \<lparr>COUNTRY = ''B'', Country = ''B'', TIME_PERIOD = Numeric 2021, OBS_VALUE = Some 5,
       Population_millions = Some 5, Patents_per_million = Some 1\<rparr>]"

definition tie_pivot :: pivot_table where
  "tie_pivot = projr (aggregate tie_ratio)"

definition empty_pivot :: pivot_table where
  "empty_pivot = projr (aggregate [])"



definition late_ratio :: "ratio_row list" where
  "late_ratio =
     [\<lparr>COUNTRY = ''A'', Country = ''A'', TIME_PERIOD = Numeric 2020, OBS_VALUE = Some 50,
       Population_millions = Some 10, Patents_per_million = Some 5\<rparr>,
      \<lparr>COUNTRY = ''A'', Country = ''A'', TIME_PERIOD = Numeric 2021, OBS_VALUE = Some 10,
       Population_millions = Some 10, Patents_per_million = Some 1\<rparr>,
      \<lparr>COUNTRY = ''B'', Country = ''B'', TIME_PERIOD = Numeric 2020, OBS_VALUE = Some 5,
       Population_millions = Some 5, Patents_per_million = Some 1\<rparr>,
      \<lparr>COUNTRY = ''B'', Country = ''B'', TIME_PERIOD = Numeric 2021, OBS_VALUE = Some 10,
       Population_millions = Some 5, Patents_per_million = Some 2\<rparr>]"

definition late_pivot :: pivot_table where
  "late_pivot = projr (aggregate late_ratio)"

section \<open>Normalizer: the rows kept and their ratio\<close>

lemma fdiv_Some: "fdiv v (Some p) = map_option (\<lambda>x. x / p) v"
  by (cases v) simp_all

lemma merged_map_filter:
  "merged df pop =
     List.map_filter
       (\<lambda>r. case pop (COUNTRY r) of None \<Rightarrow> None
             | Some p \<Rightarrow> if 0 < p then Some (per_capita_row p r) else None) df"
  unfolding merged_def add_ratio_def positive_population_def dropna_population_def
    merge_left_def
  by (induction df) (auto simp: List.map_filter_simps per_capita_row_def fdiv_Some split: option.splits)

text \<open>
  Claim C2. The normalizer keeps exactly the rows whose country code has a population
  entry greater than 0, in the order of the input; the ratio of a kept row is its raw
  value divided by that population, with no rounding; a row whose population is missing
  or not positive is not in the output.
\<close>

theorem merged_rows:
  "merged df pop = map (\<lambda>r. per_capita_row (the (pop (COUNTRY r))) r)
                       (filter (has_positive_population pop) df)
   \<and> (\<forall>row \<in> set (merged df pop). \<exists>p. pop (COUNTRY row) = Some p \<and> 0 < p
          \<and> Population_millions row = Some p
          \<and> Patents_per_million row = map_option (\<lambda>v. v / p) (OBS_VALUE row))"
proof -
  have eq: "merged df pop = map (\<lambda>r. per_capita_row (the (pop (COUNTRY r))) r)
                       (filter (has_positive_population pop) df)"
    unfolding merged_map_filter
    by (induction df) (auto simp: List.map_filter_simps has_positive_population_def split: option.splits)
  have "\<exists>p. pop (COUNTRY row) = Some p \<and> 0 < p \<and> Population_millions row = Some p
          \<and> Patents_per_million row = map_option (\<lambda>v. v / p) (OBS_VALUE row)"
    if "row \<in> set (merged df pop)" for row
  proof -
    from that obtain r where r: "has_positive_population pop r"
      and row: "row = per_capita_row (the (pop (COUNTRY r))) r"
      unfolding eq by auto
    from r obtain p where "pop (COUNTRY r) = Some p" "0 < p"
      by (auto simp: has_positive_population_def split: option.splits)
    with row show ?thesis by (simp add: per_capita_row_def)
  qed
  with eq show ?thesis by blast
qed

text \<open>
  The theorem at the table of the script, with a row that has no population entry, and
  at a table where that row has the population 0.
\<close>

theorem merged_rows_witness:
  "merged example_df (map_of population_millions) =
     [\<lparr>COUNTRY = ''AUS'', Country = ''Australia'', TIME_PERIOD = Numeric 2020,
       OBS_VALUE = Some 54, Population_millions = Some 27, Patents_per_million = Some 2\<rparr>]
   \<and> merged example_df (map_of [(''AUS'', 27), (''XXX'', 0)]) =
     [\<lparr>COUNTRY = ''AUS'', Country = ''Australia'', TIME_PERIOD = Numeric 2020,
       OBS_VALUE = Some 54, Population_millions = Some 27, Patents_per_million = Some 2\<rparr>]"
  using merged_rows [of example_df "map_of population_millions"]
    merged_rows [of example_df "map_of [(''AUS'', 27), (''XXX'', 0)]"]
  by (simp add: example_df_def population_millions_def has_positive_population_def
      per_capita_row_def)

section \<open>Aggregator: means of groups\<close>

lemma mean_single: "mean [v] = v"
  by (simp add: mean_def)

lemma keys_groupby_mean: "map fst (groupby_mean rows) = sort (remdups (map fst rows))"
  by (simp add: groupby_mean_def comp_def)

lemma distinct_keys_groupby_mean: "distinct (map fst (groupby_mean rows))"
  by (simp add: keys_groupby_mean)

lemma group_values_tabulate:
  "distinct ks \<Longrightarrow> group_values (map (\<lambda>k. (k, f k)) ks) k = (if k \<in> set ks then [f k] else [])"
  by (induction ks) (auto simp: group_values_def)

lemma sort_remdups_id: "sorted ks \<Longrightarrow> distinct ks \<Longrightarrow> sort (remdups ks) = ks"
  by (simp add: distinct_remdups_id sort_key_id_if_sorted)

lemma groupby_mean_idem: "groupby_mean (groupby_mean rows) = groupby_mean rows"
proof -
  let ?ks = "sort (remdups (map fst rows))"
  let ?f = "\<lambda>k. mean (group_values rows k)"
  have g: "groupby_mean rows = map (\<lambda>k. (k, ?f k)) ?ks"
    by (simp add: groupby_mean_def)
  have ks: "sort (remdups (map fst (groupby_mean rows))) = ?ks"
    by (simp add: keys_groupby_mean sort_remdups_id)
  have "groupby_mean (groupby_mean rows)
      = map (\<lambda>k. (k, mean (group_values (map (\<lambda>k. (k, ?f k)) ?ks) k))) ?ks"
    unfolding groupby_mean_def [of "groupby_mean rows"] ks unfolding g ..
  also have "\<dots> = map (\<lambda>k. (k, ?f k)) ?ks"
    by (rule map_cong) (simp_all add: group_values_tabulate mean_single)
  finally show ?thesis unfolding g .
qed

lemma map_of_groupby_mean:
  "map_of (groupby_mean rows) k =
     (case group_values rows k of [] \<Rightarrow> None | v # vs \<Rightarrow> Some (mean (v # vs)))"
proof -
  have mem: "k \<in> set (map fst rows) \<longleftrightarrow> group_values rows k \<noteq> []"
    by (induction rows) (auto simp: group_values_def)
  have "map_of (map (\<lambda>k. (k, mean (group_values rows k))) ks) k
      = (if k \<in> set ks then Some (mean (group_values rows k)) else None)" for ks
    by (induction ks) auto
  then show ?thesis
    using mem by (auto simp: groupby_mean_def split: list.splits)
qed

lemma group_values_absent: "k \<notin> fst ` set rows \<Longrightarrow> group_values rows k = []"
  by (induction rows) (auto simp: group_values_def)

lemma group_values_distinct:
  "distinct (map fst rows) \<Longrightarrow> group_values rows k = (case map_of rows k of None \<Rightarrow> [] | Some v \<Rightarrow> [v])"
proof (induction rows)
  case Nil
  then show ?case by (simp add: group_values_def)
next
  case (Cons r rows)
  obtain k' v where r: "r = (k', v)" by (cases r)
  show ?case
  proof (cases "k' = k")
    case True
    with Cons.prems r have "k \<notin> fst ` set rows" by auto
    then have "group_values rows k = []" by (rule group_values_absent)
    then show ?thesis using True r by (simp add: group_values_def)
  next
    case False
    with Cons r show ?thesis by (simp add: group_values_def)
  qed
qed

lemma map_of_groupby_mean_distinct:
  "distinct (map fst rows) \<Longrightarrow> map_of (groupby_mean rows) = map_of rows"
  by (rule ext) (simp add: map_of_groupby_mean group_values_distinct mean_single split: option.splits)

lemma set_groupby_mean_distinct:
  assumes "distinct (map fst rows)"
  shows "set (groupby_mean rows) = set rows"
proof -
  have "(k, v) \<in> set (groupby_mean rows) \<longleftrightarrow> (k, v) \<in> set rows" for k v
    using map_of_groupby_mean_distinct [OF assms] assms distinct_keys_groupby_mean [of rows]
    by (metis map_of_eq_Some_iff)
  then show ?thesis by auto
qed

lemma pivot_groupby_mean_distinct:
  assumes "distinct (map fst rows)"
  shows "pivot (groupby_mean rows) = pivot rows"
proof -
  have s: "set (groupby_mean rows) = set rows"
    by (rule set_groupby_mean_distinct [OF assms])
  have a: "sort (remdups (map f (groupby_mean rows))) = sort (remdups (map f rows))"
    for f :: "group_key \<times> real \<Rightarrow> 'b::linorder"
  proof -
    have "set (map f (groupby_mean rows)) = set (map f rows)" using s by simp
    then show ?thesis by (metis sorted_list_of_set_sort_remdups)
  qed
  show ?thesis
    unfolding pivot_def
    by (simp add: a assms distinct_keys_groupby_mean map_of_groupby_mean_distinct)
qed

lemma pivot_of_Inr:
  "pivot_of rows = Inr \<lparr>index = sort (remdups (map (\<lambda>r. fst (fst r)) rows)),
                        columns = sort (remdups (map (\<lambda>r. snd (fst r)) rows)),
                        cell = (\<lambda>c y. map_of (groupby_mean rows) (c, y))\<rparr>"
proof -
  have a: "sort (remdups (map (\<lambda>r. f (fst r)) (groupby_mean rows))) = sort (remdups (map (\<lambda>r. f (fst r)) rows))"
    for f :: "group_key \<Rightarrow> 'b::linorder"
  proof -
    have "set (map (\<lambda>r. f (fst r)) (groupby_mean rows)) = f ` set (map fst (groupby_mean rows))"
      by (simp add: image_image)
    also have "\<dots> = set (map (\<lambda>r. f (fst r)) rows)"
      by (simp add: keys_groupby_mean image_image)
    finally show ?thesis by (metis sorted_list_of_set_sort_remdups)
  qed
  show ?thesis
    unfolding pivot_of_def pivot_def
    by (simp add: distinct_keys_groupby_mean a sort_index_def sort_key_id_if_sorted)
qed

lemmas eval_rows =
  coerce_and_dropna_def dropna_year_ratio_def List.map_filter_simps

lemma astype_int_column_Inl:
  "astype_int_column kept = Inl e \<longleftrightarrow>
     e = IntCastingNaNError \<and> (\<exists>r\<in>set kept. fst (snd r) = NonFinite)"
proof (induction kept rule: astype_int_column.induct)
  case 1
  then show ?case by simp
next
  case (2 c t v rows)
  then show ?case
    by (cases t) (auto simp: Let_def split: sum.splits)
qed

lemma set_dropna_year_ratio:
  "set (dropna_year_ratio df) =
     {(COUNTRY r, t, v) | r t v. r \<in> set df \<and> to_numeric (TIME_PERIOD r) = Some t
        \<and> Patents_per_million r = Some v}"
  unfolding dropna_year_ratio_def
  by (induction df) (auto simp: List.map_filter_simps split: option.splits)

text \<open>The run stops at line 52 exactly when a row that is kept has a year that is not finite.\<close>

lemma coerce_and_dropna_Inl:
  "coerce_and_dropna df = Inl e \<longleftrightarrow>
     e = IntCastingNaNError
     \<and> (\<exists>r\<in>set df. to_numeric (TIME_PERIOD r) = Some NonFinite \<and> Patents_per_million r \<noteq> None)"
  unfolding coerce_and_dropna_def astype_int_column_Inl set_dropna_year_ratio
  by force

lemma group_values_nonempty: "group_values rows k \<noteq> [] \<longleftrightarrow> k \<in> fst ` set rows"
  by (induction rows) (auto simp: group_values_def)

text \<open>
  Where line 52 does not raise, the aggregator does not raise, and the cell of the pivot
  table at a country and a year is the mean of the ratios of the rows with that key.
\<close>

lemma aggregate_finite:
  assumes "coerce_and_dropna df = Inr rows"
  shows "\<exists>p. aggregate df = Inr p
        \<and> (\<forall>c y. cell p c y =
              (case group_values rows (c, y) of
                 [] \<Rightarrow> None
               | v # vs \<Rightarrow> Some (mean (v # vs))))
        \<and> set (index p) = {c. \<exists>y. group_values rows (c, y) \<noteq> []}
        \<and> set (columns p) = {y. \<exists>c. group_values rows (c, y) \<noteq> []}
        \<and> sorted (index p) \<and> distinct (index p)
        \<and> sorted (columns p) \<and> distinct (columns p)"
proof -
  let ?p = "\<lparr>index = sort (remdups (map (\<lambda>r. fst (fst r)) rows)),
            columns = sort (remdups (map (\<lambda>r. snd (fst r)) rows)),
            cell = (\<lambda>c y. map_of (groupby_mean rows) (c, y))\<rparr>"
  have mem: "group_values rows k \<noteq> [] \<longleftrightarrow> k \<in> fst ` set rows" for k
    by (rule group_values_nonempty)
  have agg: "aggregate df = Inr ?p"
    unfolding aggregate_def assms by (simp add: pivot_of_Inr)
  have cells: "\<forall>c y. cell ?p c y =
              (case group_values rows (c, y) of [] \<Rightarrow> None | v # vs \<Rightarrow> Some (mean (v # vs)))"
    by (simp add: map_of_groupby_mean)
  have idx: "set (index ?p) = {c. \<exists>y. group_values rows (c, y) \<noteq> []}"
    unfolding mem by force
  have cols: "set (columns ?p) = {y. \<exists>c. group_values rows (c, y) \<noteq> []}"
    unfolding mem by force
  have rest: "sorted (index ?p) \<and> distinct (index ?p) \<and> sorted (columns ?p) \<and> distinct (columns ?p)"
    by simp
  show ?thesis
    using agg cells idx cols rest by blast
qed

lemma aggregate_df_ratio1:
  "\<not> isl (aggregate df_ratio1)
   \<and> cell (projr (aggregate df_ratio1)) ''A'' 2020 = Some 2
   \<and> cell (projr (aggregate df_ratio1)) ''A'' 2021 = None"
proof -
  have rows: "coerce_and_dropna df_ratio1 = Inr [((''A'', 2020), 1), ((''A'', 2020), 3)]"
    by (simp add: eval_rows df_ratio1_def)
  from aggregate_finite [OF rows] obtain p where
    p: "aggregate df_ratio1 = Inr p"
    and c: "\<And>c y. cell p c y =
              (case group_values [((''A'', 2020), 1), ((''A'', 2020), 3)] (c, y) of
                 [] \<Rightarrow> None | v # vs \<Rightarrow> Some (mean (v # vs)))"
    by blast
  have "cell p ''A'' 2020 = Some 2" "cell p ''A'' 2021 = None"
    unfolding c by (simp_all add: group_values_def mean_def)
  then show ?thesis using p by simp
qed

text \<open>
  Claim C5 says that the aggregator drops every row whose year cannot be coerced to an
  integer, and that each cell of the Matrix is the mean of the ratios with its key. The
  script coerces with \<open>errors="coerce"\<close> and drops the NaN, but a year that reads as an
  infinite float is not NaN: the row is kept, and line 52 raises on it. A year outside
  the 64-bit range is kept too, under the year \<open>- 2 ^ 63\<close>.
\<close>

theorem aggregate_non_finite_year:
  "aggregate (merged inf_df (map_of population_millions)) = Inl IntCastingNaNError
   \<and> coerce_and_dropna (merged big_df (map_of population_millions)) =
       Inr [((''AUS'', - (2 ^ 63)), 2)]"
proof -
  have "floor ((10::real) ^ 30) = 10 ^ 30"
    by (metis floor_of_int of_int_numeral of_int_power)
  then show ?thesis
    by (simp add: aggregate_def eval_rows inf_df_def big_df_def merged_def add_ratio_def
        positive_population_def dropna_population_def merge_left_def population_millions_def)
qed

text \<open>
  Claim C7. Aggregation is idempotent: grouping rows that are already grouped changes
  nothing, and on rows with unique keys the group-by-mean step keeps every row (the mean
  of one value is that value) and gives the same pivot table.
\<close>

theorem groupby_mean_idempotent:
  "groupby_mean (groupby_mean rows) = groupby_mean rows
   \<and> pivot_of (groupby_mean rows) = pivot_of rows
   \<and> (distinct (map fst rows) \<longrightarrow>
        set (groupby_mean rows) = set rows \<and> pivot (groupby_mean rows) = pivot rows)"
  by (simp add: groupby_mean_idem pivot_of_def set_groupby_mean_distinct
      pivot_groupby_mean_distinct)

text \<open>The theorem at rows with unique keys, not in key order.\<close>

theorem groupby_mean_idempotent_witness:
  "distinct (map fst unique_rows)
   \<and> set (groupby_mean unique_rows) = set unique_rows
   \<and> pivot (groupby_mean unique_rows) = pivot unique_rows
   \<and> groupby_mean unique_rows = [((''A'', 2020), 1), ((''A'', 2021), 2), ((''B'', 2020), 1)]"
proof -
  have d: "distinct (map fst unique_rows)"
    by (simp add: unique_rows_def)
  have g: "groupby_mean unique_rows = [((''A'', 2020), 1), ((''A'', 2021), 2), ((''B'', 2020), 1)]"
    by (simp add: groupby_mean_def unique_rows_def group_values_def mean_def)
  show ?thesis
    using groupby_mean_idempotent [of unique_rows] d g by simp
qed

section \<open>Sorting: the possible results of sort_values\<close>


lemma na_last_ge_total: "na_last_ge a b \<or> na_last_ge b a"
  by (cases a; cases b) auto

lemma na_last_ge_trans: "na_last_ge a b \<Longrightarrow> na_last_ge b c \<Longrightarrow> na_last_ge a c"
  by (cases a; cases b; cases c) auto

lemma descending_na_last_map:
  "descending_na_last (map val cats) = sorted_wrt (\<lambda>a b. na_last_ge (val a) (val b)) cats"
  by (simp add: descending_na_last_def sorted_wrt_map)

lemma mset_insert_descending: "mset (insert_descending val c ds) = add_mset c (mset ds)"
  by (induction ds) auto

lemma set_insert_descending: "set (insert_descending val c ds) = insert c (set ds)"
  by (induction ds) auto

lemma sorted_insert_descending:
  "sorted_wrt (\<lambda>a b. na_last_ge (val a) (val b)) ds \<Longrightarrow>
   sorted_wrt (\<lambda>a b. na_last_ge (val a) (val b)) (insert_descending val c ds)"
proof (induction ds)
  case Nil
  then show ?case by simp
next
  case (Cons d ds)
  show ?case
  proof (cases "na_last_ge (val c) (val d)")
    case True
    with Cons.prems show ?thesis
      by (auto intro: na_last_ge_trans)
  next
    case False
    then have "na_last_ge (val d) (val c)"
      using na_last_ge_total by blast
    with False Cons show ?thesis
      by (auto simp: set_insert_descending)
  qed
qed

lemma mset_stable_sort_descending: "mset (stable_sort_descending val idx) = mset idx"
  unfolding stable_sort_descending_def
  by (induction idx) (simp_all add: mset_insert_descending)

lemma sorted_stable_sort_descending:
  "sorted_wrt (\<lambda>a b. na_last_ge (val a) (val b)) (stable_sort_descending val idx)"
  unfolding stable_sort_descending_def
  by (induction idx) (simp_all add: sorted_insert_descending)

lemma sort_values_index_stable:
  "sort_values_index idx val (stable_sort_descending val idx)"
  by (simp add: sort_values_index_def descending_na_last_map mset_stable_sort_descending
      sorted_stable_sort_descending)




lemma categories_perm: "categories SORT_MODE p cats \<Longrightarrow> mset cats = mset (index p)"
  by (auto simp: categories_def sort_values_index_def split: if_splits option.splits)

lemma categories_exists: "\<exists>cats. categories SORT_MODE p cats"
proof (cases "SORT_MODE = ''total''")
  case True
  then show ?thesis
    using sort_values_index_stable [of "index p" "sum_axis1 p"]
    by (auto simp: categories_def)
next
  case total: False
  show ?thesis
  proof (cases "startswith SORT_MODE ''year:''")
    case True
    show ?thesis
    proof (cases "sort_year SORT_MODE p")
      case None
      with total True show ?thesis by (simp add: categories_def)
    next
      case (Some y)
      with total True show ?thesis
        using sort_values_index_stable [of "index p" "\<lambda>c. cell p c y"]
        by (auto simp: categories_def)
    qed
  next
    case False
    with total show ?thesis
      using sort_values_index_stable [of "index p" "latest_vals p"]
      by (auto simp: categories_def)
  qed
qed

section \<open>The example of the specification\<close>

lemma spec_merged:
  "merged spec_df spec_pop =
     [\<lparr>COUNTRY = ''A'', Country = ''A'', TIME_PERIOD = Numeric 2020, OBS_VALUE = Some 10,
       Population_millions = Some 10, Patents_per_million = Some 1\<rparr>,
      \<lparr>COUNTRY = ''A'', Country = ''A'', TIME_PERIOD = Numeric 2021, OBS_VALUE = Some 20,
       Population_millions = Some 10, Patents_per_million = Some 2\<rparr>,
      \<lparr>COUNTRY = ''B'', Country = ''B'', TIME_PERIOD = Numeric 2020, OBS_VALUE = Some 5,
       Population_millions = Some 5, Patents_per_million = Some 1\<rparr>]"
  by (simp add: merged_def add_ratio_def positive_population_def dropna_population_def
      merge_left_def spec_df_def spec_pop_def)

lemma spec_rows:
  "coerce_and_dropna (merged spec_df spec_pop) =
     Inr [((''A'', 2020), 1), ((''A'', 2021), 2), ((''B'', 2020), 1)]"
  unfolding spec_merged
  by (simp add: eval_rows)

lemma spec_groupby:
  "groupby_mean [((''A'', 2020), 1), ((''A'', 2021), 2), ((''B'', 2020), 1)] =
     [((''A'', 2020), 1), ((''A'', 2021), 2), ((''B'', 2020), 1)]"
  by (simp add: groupby_mean_def group_values_def mean_def)

lemma spec_aggregate:
  "aggregate (merged spec_df spec_pop) =
     Inr \<lparr>index = [''A'', ''B''], columns = [2020, 2021],
          cell = (\<lambda>c y. map_of [((''A'', 2020), 1), ((''A'', 2021), 2), ((''B'', 2020), 1)] (c, y))\<rparr>"
  unfolding aggregate_def spec_rows
  by (simp add: pivot_of_Inr spec_groupby)

lemma spec_pivot_eq:
  "spec_pivot = \<lparr>index = [''A'', ''B''], columns = [2020, 2021],
          cell = (\<lambda>c y. map_of [((''A'', 2020), 1), ((''A'', 2021), 2), ((''B'', 2020), 1)] (c, y))\<rparr>"
  by (simp add: spec_pivot_def spec_aggregate)

lemma spec_sums: "sum_axis1 spec_pivot ''A'' = Some 3" "sum_axis1 spec_pivot ''B'' = Some 1"
  by (simp_all add: spec_pivot_eq sum_axis1_def List.map_filter_simps)

lemma two_perm: "mset cats = mset [a, b] \<longleftrightarrow> cats = [a, b] \<or> cats = [b, a]"
proof
  assume h: "mset cats = mset [a, b]"
  then have "length cats = 2" by (metis length_Cons list.size(3) numeral_2_eq_2 size_mset)
  then obtain x y where c: "cats = [x, y]"
    by (metis (no_types, opaque_lifting) Suc_length_conv length_0_conv numeral_2_eq_2)
  with h show "cats = [a, b] \<or> cats = [b, a]"
    by (auto simp: add_eq_conv_ex)
next
  assume "cats = [a, b] \<or> cats = [b, a]"
  then show "mset cats = mset [a, b]" by auto
qed

lemma spec_index: "index spec_pivot = [''A'', ''B'']"
  by (simp add: spec_pivot_eq)

lemma spec_total: "categories ''total'' spec_pivot cats \<longleftrightarrow> cats = [''A'', ''B'']"
proof -
  have "categories ''total'' spec_pivot cats \<longleftrightarrow>
        (cats = [''A'', ''B''] \<or> cats = [''B'', ''A'']) \<and> descending_na_last (map (sum_axis1 spec_pivot) cats)"
    unfolding categories_def sort_values_index_def spec_index two_perm by simp
  also have "\<dots> \<longleftrightarrow> cats = [''A'', ''B'']"
    by (auto simp: descending_na_last_def spec_sums)
  finally show ?thesis .
qed

lemma spec_series: "series_for_year spec_pivot [''A'', ''B''] 2021 = [Num 2, Null]"
  by (simp add: series_for_year_def reindex_column_def spec_pivot_eq round2_def round_half_even_def)

lemma spec_years: "years spec_pivot = [2020, 2021]"
  by (simp add: years_def spec_pivot_eq)

lemma str_2020: "str 2020 = ''2020''" and str_2021: "str 2021 = ''2021''"
  by (simp_all add: str_def str_nat.simps digit_char_def)

lemma spec_data: "data_by_year spec_pivot [''A'', ''B''] ''2021'' = Some [Num 2, Null]"
  unfolding data_by_year_def spec_years
  by (simp add: str_2020 str_2021 spec_series)

section \<open>Category order under "total"\<close>



lemma tie_aggregate:
  "aggregate tie_ratio =
     Inr \<lparr>index = [''A'', ''B''], columns = [2020, 2021],
          cell = (\<lambda>c y. map_of [((''A'', 2020), 1), ((''A'', 2021), 2),
                                  ((''B'', 2020), 2), ((''B'', 2021), 1)] (c, y))\<rparr>"
proof -
  have rows: "coerce_and_dropna tie_ratio =
      Inr [((''A'', 2020), 1), ((''A'', 2021), 2), ((''B'', 2020), 2), ((''B'', 2021), 1)]"
    by (simp add: eval_rows tie_ratio_def)
  have g: "groupby_mean [((''A'', 2020), 1), ((''A'', 2021), 2), ((''B'', 2020), 2), ((''B'', 2021), 1)]
      = [((''A'', 2020), 1), ((''A'', 2021), 2), ((''B'', 2020), 2), ((''B'', 2021), 1)]"
    by (simp add: groupby_mean_def group_values_def mean_def)
  show ?thesis
    unfolding aggregate_def rows by (simp add: pivot_of_Inr g)
qed

lemma tie_pivot_eq:
  "tie_pivot = \<lparr>index = [''A'', ''B''], columns = [2020, 2021],
          cell = (\<lambda>c y. map_of [((''A'', 2020), 1), ((''A'', 2021), 2),
                                  ((''B'', 2020), 2), ((''B'', 2021), 1)] (c, y))\<rparr>"
  by (simp add: tie_pivot_def tie_aggregate)








section \<open>Category order under "latest" and the dispatch on SORT_MODE\<close>

lemma map_filter_append:
  "List.map_filter f (xs @ ys) = List.map_filter f xs @ List.map_filter f ys"
  by (simp add: List.map_filter_def)

lemma map_filter_Nil_iff: "List.map_filter f xs = [] \<longleftrightarrow> (\<forall>x\<in>set xs. f x = None)"
  by (induction xs) (auto simp: List.map_filter_simps split: option.splits)

lemma last_map_filter_sorted:
  "sorted ys \<Longrightarrow> List.map_filter f ys \<noteq> [] \<Longrightarrow>
   \<exists>y\<in>set ys. f y = Some (last (List.map_filter f ys)) \<and> (\<forall>y'\<in>set ys. y < y' \<longrightarrow> f y' = None)"
proof (induction ys rule: rev_induct)
  case Nil
  then show ?case by (simp add: List.map_filter_simps)
next
  case (snoc x xs)
  from snoc.prems(1) have s: "sorted xs" and le: "\<forall>y\<in>set xs. y \<le> x"
    by (auto simp: sorted_append)
  show ?case
  proof (cases "f x")
    case None
    then have eq: "List.map_filter f (xs @ [x]) = List.map_filter f xs"
      by (simp add: map_filter_append List.map_filter_simps)
    with snoc.prems(2) have "List.map_filter f xs \<noteq> []" by simp
    from snoc.IH [OF s this] obtain y where
      "y \<in> set xs" "f y = Some (last (List.map_filter f xs))"
      "\<forall>y'\<in>set xs. y < y' \<longrightarrow> f y' = None" by blast
    with None show ?thesis unfolding eq by auto
  next
    case (Some v)
    then have "last (List.map_filter f (xs @ [x])) = v"
      by (simp add: map_filter_append List.map_filter_simps)
    with Some le show ?thesis by fastforce
  qed
qed

lemma latest_vals_None:
  "latest_vals p c = None \<longleftrightarrow> (\<forall>y\<in>set (columns p). cell p c y = None)"
  using map_filter_Nil_iff [of "cell p c" "sort (columns p)"]
  by (auto simp: latest_vals_def split: list.splits)

lemma latest_vals_Some:
  "latest_vals p c = Some v \<longleftrightarrow>
     (\<exists>y\<in>set (columns p). cell p c y = Some v
        \<and> (\<forall>y'\<in>set (columns p). y < y' \<longrightarrow> cell p c y' = None))"
proof
  assume h: "latest_vals p c = Some v"
  then have ne: "List.map_filter (cell p c) (sort (columns p)) \<noteq> []"
    and l: "last (List.map_filter (cell p c) (sort (columns p))) = v"
    by (auto simp: latest_vals_def split: list.splits)
  from last_map_filter_sorted [OF _ ne] l show
    "\<exists>y\<in>set (columns p). cell p c y = Some v
        \<and> (\<forall>y'\<in>set (columns p). y < y' \<longrightarrow> cell p c y' = None)"
    by auto
next
  assume "\<exists>y\<in>set (columns p). cell p c y = Some v
        \<and> (\<forall>y'\<in>set (columns p). y < y' \<longrightarrow> cell p c y' = None)"
  then obtain y where y: "y \<in> set (columns p)" "cell p c y = Some v"
    "\<forall>y'\<in>set (columns p). y < y' \<longrightarrow> cell p c y' = None" by blast
  then have ne: "List.map_filter (cell p c) (sort (columns p)) \<noteq> []"
    by (auto simp: map_filter_Nil_iff)
  from last_map_filter_sorted [OF _ ne] obtain z where z: "z \<in> set (columns p)"
    "cell p c z = Some (last (List.map_filter (cell p c) (sort (columns p))))"
    "\<forall>y'\<in>set (columns p). z < y' \<longrightarrow> cell p c y' = None" by auto
  from y z have "\<not> y < z" "\<not> z < y" by auto
  then have "y = z" by simp
  with y z have "last (List.map_filter (cell p c) (sort (columns p))) = v" by simp
  with ne show "latest_vals p c = Some v"
    by (auto simp: latest_vals_def split: list.splits)
qed

text \<open>
  Claim C6. Under "latest" the sort key of a country is the value at the latest year at
  which the country has a value (NaN if it has none), and \<open>categories\<close> is a permutation
  of the countries in descending order of that key; there is always a result.
\<close>

theorem categories_latest:
  "(categories ''latest'' p cats \<longleftrightarrow>
      mset cats = mset (index p) \<and> descending_na_last (map (latest_vals p) cats))
   \<and> (\<forall>c v. latest_vals p c = Some v \<longleftrightarrow>
        (\<exists>y\<in>set (columns p). cell p c y = Some v
           \<and> (\<forall>y'\<in>set (columns p). y < y' \<longrightarrow> cell p c y' = None)))
   \<and> (\<forall>c. latest_vals p c = None \<longleftrightarrow> (\<forall>y\<in>set (columns p). cell p c y = None))
   \<and> (\<exists>cats. categories ''latest'' p cats)"
proof -
  have "categories ''latest'' p cats \<longleftrightarrow>
      mset cats = mset (index p) \<and> descending_na_last (map (latest_vals p) cats)"
    by (simp add: categories_def sort_values_index_def startswith_def)
  then show ?thesis
    using latest_vals_Some [of p] latest_vals_None [of p] categories_exists [of "''latest''" p]
    by blast
qed

lemma spec_latest: "latest_vals spec_pivot ''A'' = Some 2" "latest_vals spec_pivot ''B'' = Some 1"
  by (simp_all add: latest_vals_def spec_pivot_eq List.map_filter_simps)

text \<open>The theorem at the pivot table of the specification's example.\<close>

theorem categories_latest_witness:
  "categories ''latest'' spec_pivot [''A'', ''B'']
   \<and> \<not> categories ''latest'' spec_pivot [''B'', ''A'']
   \<and> latest_vals spec_pivot ''B'' = Some 1"
  using categories_latest [of spec_pivot "[''A'', ''B'']"]
    categories_latest [of spec_pivot "[''B'', ''A'']"]
  by (simp add: spec_index spec_latest descending_na_last_def)

lemma late_aggregate:
  "aggregate late_ratio =
     Inr \<lparr>index = [''A'', ''B''], columns = [2020, 2021],
          cell = (\<lambda>c y. map_of [((''A'', 2020), 5), ((''A'', 2021), 1),
                                  ((''B'', 2020), 1), ((''B'', 2021), 2)] (c, y))\<rparr>"
proof -
  have rows: "coerce_and_dropna late_ratio =
      Inr [((''A'', 2020), 5), ((''A'', 2021), 1), ((''B'', 2020), 1), ((''B'', 2021), 2)]"
    by (simp add: eval_rows late_ratio_def)
  have g: "groupby_mean [((''A'', 2020), 5), ((''A'', 2021), 1), ((''B'', 2020), 1), ((''B'', 2021), 2)]
      = [((''A'', 2020), 5), ((''A'', 2021), 1), ((''B'', 2020), 1), ((''B'', 2021), 2)]"
    by (simp add: groupby_mean_def group_values_def mean_def)
  show ?thesis
    unfolding aggregate_def rows by (simp add: pivot_of_Inr g)
qed

lemma late_pivot_eq:
  "late_pivot = \<lparr>index = [''A'', ''B''], columns = [2020, 2021],
          cell = (\<lambda>c y. map_of [((''A'', 2020), 5), ((''A'', 2021), 1),
                                  ((''B'', 2020), 1), ((''B'', 2021), 2)] (c, y))\<rparr>"
  by (simp add: late_pivot_def late_aggregate)

lemma late_index: "index late_pivot = [''A'', ''B'']"
  by (simp add: late_pivot_eq)

lemma late_latest: "latest_vals late_pivot ''A'' = Some 1" "latest_vals late_pivot ''B'' = Some 2"
  by (simp_all add: latest_vals_def late_pivot_eq List.map_filter_simps)

lemma late_sums: "sum_axis1 late_pivot ''A'' = Some 6" "sum_axis1 late_pivot ''B'' = Some 3"
  by (simp_all add: late_pivot_eq sum_axis1_def List.map_filter_simps)

text \<open>
  Claim C10. Every value of SORT_MODE gives a result. A value that is not "total" and
  does not start with "year:" is handled as "latest": \<open>categories\<close> is then a
  permutation of the index in descending order of the value of each country at its
  latest year with a value.
\<close>

theorem unknown_mode_is_latest:
  "(\<exists>cats. categories SORT_MODE p cats)
   \<and> (SORT_MODE \<noteq> ''total'' \<and> \<not> startswith SORT_MODE ''year:'' \<longrightarrow>
        (\<forall>cats. categories SORT_MODE p cats \<longleftrightarrow>
           mset cats = mset (index p) \<and> descending_na_last (map (latest_vals p) cats))
        \<and> (\<forall>cats. categories SORT_MODE p cats = categories ''latest'' p cats)
        \<and> (\<forall>c v. latest_vals p c = Some v \<longleftrightarrow>
             (\<exists>y\<in>set (columns p). cell p c y = Some v
                \<and> (\<forall>y'\<in>set (columns p). y < y' \<longrightarrow> cell p c y' = None)))
        \<and> (\<forall>c. latest_vals p c = None \<longleftrightarrow> (\<forall>y\<in>set (columns p). cell p c y = None)))"
proof -
  have "categories SORT_MODE p cats \<longleftrightarrow>
           mset cats = mset (index p) \<and> descending_na_last (map (latest_vals p) cats)"
    if "SORT_MODE \<noteq> ''total''" "\<not> startswith SORT_MODE ''year:''" for cats
    using that by (simp add: categories_def sort_values_index_def)
  moreover have "categories SORT_MODE p cats = categories ''latest'' p cats"
    if "SORT_MODE \<noteq> ''total''" "\<not> startswith SORT_MODE ''year:''" for cats
    using that by (simp add: categories_def startswith_def)
  ultimately show ?thesis
    using categories_exists [of SORT_MODE p] latest_vals_Some [of p] latest_vals_None [of p]
    by blast
qed

text \<open>
  The theorem at a misspelt mode, the empty string and a mode in another case, on a table
  where the latest values give the order B, A, and the totals and the index the order A, B.
\<close>

theorem unknown_mode_is_latest_witness:
  "categories ''totl'' late_pivot [''B'', ''A''] \<and> \<not> categories ''totl'' late_pivot [''A'', ''B'']
   \<and> categories '''' late_pivot [''B'', ''A''] \<and> \<not> categories '''' late_pivot [''A'', ''B'']
   \<and> categories ''Total'' late_pivot [''B'', ''A''] \<and> \<not> categories ''Total'' late_pivot [''A'', ''B'']
   \<and> categories ''total'' late_pivot [''A'', ''B''] \<and> \<not> categories ''total'' late_pivot [''B'', ''A'']
   \<and> index late_pivot = [''A'', ''B'']"
proof -
  have t: "categories ''total'' late_pivot [''A'', ''B'']"
    "\<not> categories ''total'' late_pivot [''B'', ''A'']"
    by (simp_all add: categories_def sort_values_index_def late_index late_sums
        descending_na_last_def)
  show ?thesis
    using unknown_mode_is_latest [of "''totl''" late_pivot]
      unknown_mode_is_latest [of "''''" late_pivot]
      unknown_mode_is_latest [of "''Total''" late_pivot] t
    by (simp add: startswith_def late_index late_latest descending_na_last_def)
qed

lemma aggregate_index_distinct: "aggregate df = Inr p \<Longrightarrow> distinct (index p)"
  by (auto simp: aggregate_def pivot_of_Inr split: sum.splits)

text \<open>
  Claim C9. For the pivot table that the aggregator builds and every value of SORT_MODE,
  \<open>categories\<close> is a permutation of the index: every country code of the pivot table
  occurs once and no other code occurs.
\<close>

theorem categories_permutation:
  assumes "aggregate df = Inr p" and "categories SORT_MODE p cats"
  shows "mset cats = mset (index p) \<and> distinct cats \<and> set cats = set (index p)"
proof -
  have m: "mset cats = mset (index p)"
    using assms(2) by (rule categories_perm)
  moreover have "distinct (index p)"
    using assms(1) by (rule aggregate_index_distinct)
  ultimately show ?thesis
    by (metis mset_eq_setD mset_eq_imp_distinct_iff)
qed

section \<open>Category order under "year:"\<close>

lemma requested_year_prefix: "requested_year (''year:'' @ t) = py_int t"
  by (simp add: requested_year_def split_colon_1_def item_def)

lemma startswith_year: "startswith (''year:'' @ t) ''year:''"
  by (simp add: startswith_def)

lemma py_max_Max: "ys \<noteq> [] \<Longrightarrow> py_max ys = Some (Max (set ys))"
  by (cases ys) (simp_all add: Max.set_eq_fold [symmetric])

lemma set_years: "set (years p) = set (columns p)"
  by (simp add: years_def)

lemma years_Nil: "years p = [] \<longleftrightarrow> columns p = []"
  by (metis set_years set_empty)

lemma sort_year_present:
  "py_int t = Some y \<Longrightarrow> y \<in> set (years p) \<Longrightarrow> sort_year (''year:'' @ t) p = Some y"
  unfolding sort_year_def requested_year_prefix by (simp add: set_years)

lemma sort_year_absent:
  assumes "py_int t = None \<or> (\<exists>y. py_int t = Some y \<and> y \<notin> set (years p))"
  shows "sort_year (''year:'' @ t) p = py_max (years p)"
proof (cases "py_int t")
  case None
  show ?thesis
  proof (cases "years p")
    case Nil
    with None show ?thesis unfolding sort_year_def requested_year_prefix by simp
  next
    case (Cons z zs)
    then have "Max (set (years p)) \<in> set (columns p)"
      using Max_in [of "set (years p)"] by (simp add: set_years [symmetric])
    with None Cons show ?thesis
      using py_max_Max [of "years p"]
      unfolding sort_year_def requested_year_prefix by simp
  qed
next
  case (Some y)
  with assms show ?thesis
    unfolding sort_year_def requested_year_prefix by (simp add: set_years)
qed

lemma str_nat_nonempty: "str_nat n \<noteq> []"
  by (subst str_nat.simps) simp

lemma digit_char_cases:
  assumes "d < 10"
  shows "digit_value (digit_char d) = Some (int d) \<and> digit_char d \<noteq> CHR ''_''
    \<and> digit_char d \<noteq> CHR ''-'' \<and> digit_char d \<noteq> CHR ''+'' \<and> \<not> is_space (digit_char d)"
proof -
  from assms have "d \<in> {0, 1, 2, 3, 4, 5, 6, 7, 8, 9}" by auto
  then show ?thesis
    by (auto simp: digit_char_def digit_value_def is_space_def)
qed

lemma str_nat_digits: "c \<in> set (str_nat n) \<Longrightarrow> \<exists>d<10. c = digit_char d"
proof (induction n rule: str_nat.induct)
  case (1 n)
  show ?case
  proof (cases "n < 10")
    case True
    with "1.prems" show ?thesis by (auto simp: str_nat.simps [of n])
  next
    case False
    have m: "n mod 10 < 10" by simp
    from "1.prems" False have "c \<in> set (str_nat (n div 10)) \<or> c = digit_char (n mod 10)"
      by (auto simp: str_nat.simps [of n])
    then show ?thesis
      using "1.IH" [OF False] m by blast
  qed
qed

lemma digits_append:
  "\<forall>c\<in>set xs. c \<noteq> CHR ''_'' \<and> digit_value c \<noteq> None \<Longrightarrow> xs \<noteq> [] \<Longrightarrow>
   digits b acc (xs @ ys) = digits True (foldl (\<lambda>a c. a * 10 + the (digit_value c)) acc xs) ys"
proof (induction xs arbitrary: b acc)
  case Nil
  then show ?case by simp
next
  case (Cons c cs)
  then obtain d where d: "digit_value c = Some d" "c \<noteq> CHR ''_''" by auto
  show ?case
  proof (cases "cs = []")
    case True
    with d show ?thesis by simp
  next
    case False
    with Cons d show ?thesis by simp
  qed
qed

lemma foldl_str_nat:
  "foldl (\<lambda>a c. a * 10 + the (digit_value c)) 0 (str_nat n) = int n"
proof (induction n rule: str_nat.induct)
  case (1 n)
  show ?case
  proof (cases "n < 10")
    case True
    then show ?thesis
      using digit_char_cases [of n] by (simp add: str_nat.simps [of n])
  next
    case False
    have "n mod 10 < 10" by simp
    from digit_char_cases [OF this] have "digit_value (digit_char (n mod 10)) = Some (int (n mod 10))"
      by simp
    with False "1.IH" show ?thesis
      by (simp add: str_nat.simps [of n] zdiv_int zmod_int)
  qed
qed

lemma digits_str_nat: "digits False 0 (str_nat n) = Some (int n)"
proof -
  have "\<forall>c\<in>set (str_nat n). c \<noteq> CHR ''_'' \<and> digit_value c \<noteq> None"
    using str_nat_digits digit_char_cases by fastforce
  from digits_append [OF this str_nat_nonempty, of False 0 "[]"] show ?thesis
    by (simp add: foldl_str_nat)
qed

lemma strip_id: "s \<noteq> [] \<Longrightarrow> \<not> is_space (hd s) \<Longrightarrow> \<not> is_space (last s) \<Longrightarrow> strip s = s"
proof -
  assume a: "s \<noteq> []" "\<not> is_space (hd s)" "\<not> is_space (last s)"
  then have "dropWhile is_space s = s" by (cases s) simp_all
  moreover have "dropWhile is_space (rev s) = rev s"
    using a by (cases "rev s") (simp_all add: last_rev [symmetric] hd_rev)
  ultimately show ?thesis by (simp add: strip_def)
qed

lemma str_nat_ends:
  "\<not> is_space (hd (str_nat n))" "\<not> is_space (last (str_nat n))"
  "hd (str_nat n) \<noteq> CHR ''-''" "hd (str_nat n) \<noteq> CHR ''+''"
proof -
  have "hd (str_nat n) \<in> set (str_nat n)" "last (str_nat n) \<in> set (str_nat n)"
    using str_nat_nonempty by simp_all
  then obtain d e where "d < 10" "hd (str_nat n) = digit_char d"
    "e < 10" "last (str_nat n) = digit_char e"
    using str_nat_digits by blast
  then show "\<not> is_space (hd (str_nat n))" "\<not> is_space (last (str_nat n))"
    "hd (str_nat n) \<noteq> CHR ''-''" "hd (str_nat n) \<noteq> CHR ''+''"
    using digit_char_cases by auto
qed

lemma length_str_nat: "n < 10 ^ Suc k \<Longrightarrow> length (str_nat n) \<le> Suc k"
proof (induction k arbitrary: n)
  case 0
  then show ?case by (simp add: str_nat.simps [of n])
next
  case (Suc k)
  show ?case
  proof (cases "n < 10")
    case True
    then show ?thesis by (simp add: str_nat.simps [of n])
  next
    case False
    from Suc.prems have "n div 10 < 10 ^ Suc k"
      by (simp add: less_mult_imp_div_less mult.commute)
    from Suc.IH [OF this] False show ?thesis
      by (simp add: str_nat.simps [of n])
  qed
qed

lemma int64_digits:
  assumes "- (2 ^ 63) \<le> y" and "y < 2 ^ 63"
  shows "\<not> 4300 < length (filter (\<lambda>d. digit_value d \<noteq> None) (str_nat (nat \<bar>y\<bar>)))"
proof -
  have "nat \<bar>y\<bar> < 10 ^ Suc 18"
    using assms by simp
  then have l: "length (str_nat (nat \<bar>y\<bar>)) \<le> Suc 18"
    by (rule length_str_nat)
  from length_filter_le [of "\<lambda>d. digit_value d \<noteq> None" "str_nat (nat \<bar>y\<bar>)"] l
  show ?thesis by linarith
qed

lemma py_int_str:
  assumes "- (2 ^ 63) \<le> y" and "y < 2 ^ 63"
  shows "py_int (str y) = Some y"
proof (cases "y < 0")
  case True
  let ?s = "str_nat (nat (- y))"
  have "strip (CHR ''-'' # ?s) = CHR ''-'' # ?s"
    using str_nat_nonempty [of "nat (- y)"] str_nat_ends(2) [of "nat (- y)"]
    by (intro strip_id) (simp_all add: is_space_def)
  moreover have "nat \<bar>y\<bar> = nat (- y)" using True by simp
  ultimately show ?thesis
    using True int64_digits [OF assms]
    by (simp add: py_int_def str_def digits_str_nat)
next
  case False
  let ?s = "str_nat (nat y)"
  have s: "strip ?s = ?s"
    using str_nat_nonempty str_nat_ends by (intro strip_id)
  obtain c cs where c: "?s = c # cs"
    using str_nat_nonempty [of "nat y"] by (cases ?s) auto
  then have n: "c \<noteq> CHR ''-''" "c \<noteq> CHR ''+''"
    using str_nat_ends(3,4) [of "nat y"] by simp_all
  have "nat \<bar>y\<bar> = nat y" using False by simp
  with int64_digits [OF assms] c
  have "\<not> 4300 < length (filter (\<lambda>d. digit_value d \<noteq> None) (c # cs))" by simp
  with False s c n show ?thesis
    using digits_str_nat [of "nat y"] by (simp add: py_int_def str_def)
qed

text \<open>
  Claim C3. The mode "year:" followed by the digits of a year \<open>y\<close> asks for that year
  (\<open>int\<close> reads \<open>str(y)\<close> as \<open>y\<close>, for every \<open>y\<close> that a 64-bit year column can hold). If the year asked for is in the year list, the
  countries are in descending order of their value in that year, NaN last; if the text
  after "year:" is no integer or not a year of the list, the year is the greatest of the
  list; if the list is empty, \<open>categories\<close> is the index of the pivot table; there is
  always a result.
\<close>

theorem categories_year:
  "(- (2 ^ 63) \<le> y \<and> y < 2 ^ 63 \<longrightarrow> py_int (str y) = Some y)
   \<and> (- (2 ^ 63) \<le> y \<and> y < 2 ^ 63 \<and> y \<in> set (years p) \<longrightarrow>
      (categories (''year:'' @ str y) p cats \<longleftrightarrow>
         mset cats = mset (index p) \<and> descending_na_last (map (\<lambda>c. cell p c y) cats)))
   \<and> (py_int t = Some y \<and> y \<in> set (years p) \<longrightarrow>
      (categories (''year:'' @ t) p cats \<longleftrightarrow>
         mset cats = mset (index p) \<and> descending_na_last (map (\<lambda>c. cell p c y) cats)))
   \<and> ((py_int t = None \<or> (\<exists>z. py_int t = Some z \<and> z \<notin> set (years p))) \<and> years p \<noteq> [] \<longrightarrow>
      (categories (''year:'' @ t) p cats \<longleftrightarrow>
         mset cats = mset (index p)
         \<and> descending_na_last (map (\<lambda>c. cell p c (Max (set (years p)))) cats)))
   \<and> (years p = [] \<longrightarrow> (categories (''year:'' @ t) p cats \<longleftrightarrow> cats = index p))
   \<and> (\<exists>cats'. categories (''year:'' @ t) p cats')"
proof -
  have d: "categories (''year:'' @ t) p cats =
      (case sort_year (''year:'' @ t) p of
         None \<Rightarrow> cats = index p
       | Some y \<Rightarrow> sort_values_index (index p) (\<lambda>c. cell p c y) cats)" for t
    by (simp add: categories_def startswith_def)
  have a: "categories (''year:'' @ t) p cats \<longleftrightarrow>
         mset cats = mset (index p) \<and> descending_na_last (map (\<lambda>c. cell p c y) cats)"
    if "py_int t = Some y" "y \<in> set (years p)" for t
    unfolding d using sort_year_present [OF that] by (simp add: sort_values_index_def)
  have b: "categories (''year:'' @ t) p cats \<longleftrightarrow>
         mset cats = mset (index p)
         \<and> descending_na_last (map (\<lambda>c. cell p c (Max (set (years p)))) cats)"
    if "py_int t = None \<or> (\<exists>z. py_int t = Some z \<and> z \<notin> set (years p))" "years p \<noteq> []"
    unfolding d using sort_year_absent [OF that(1)] py_max_Max [OF that(2)]
    by (simp add: sort_values_index_def)
  have c: "categories (''year:'' @ t) p cats \<longleftrightarrow> cats = index p" if "years p = []"
  proof -
    have "py_int t = None \<or> (\<exists>z. py_int t = Some z \<and> z \<notin> set (years p))"
      using that by (cases "py_int t") simp_all
    from sort_year_absent [OF this] that show ?thesis
      unfolding d by simp
  qed
  have s: "py_int (str y) = Some y" if "- (2 ^ 63) \<le> y" "y < 2 ^ 63"
    using that by (rule py_int_str)
  from a [of t] a [OF s] b c s categories_exists [of "''year:'' @ t" p]
  show ?thesis
    by blast
qed

lemma empty_pivot_eq: "index empty_pivot = []" "columns empty_pivot = []"
  by (simp_all add: empty_pivot_def aggregate_def pivot_of_Inr eval_rows)

lemma py_int_1999: "py_int ''1999'' = Some 1999"
  by (simp add: py_int_def strip_def is_space_def digit_value_def Let_def)

lemma py_int_latest: "py_int ''latest'' = None"
  by (simp add: py_int_def strip_def is_space_def digit_value_def Let_def)

lemma spec_cells:
  "cell spec_pivot ''A'' 2021 = Some 2" "cell spec_pivot ''B'' 2021 = None"
  "cell spec_pivot ''A'' 2020 = Some 1" "cell spec_pivot ''B'' 2020 = Some 1"
  by (simp_all add: spec_pivot_eq)

lemma tie_index: "index tie_pivot = [''A'', ''B'']"
  by (simp add: tie_pivot_eq)

lemma tie_years: "years tie_pivot = [2020, 2021]"
  by (simp add: years_def tie_pivot_eq)

lemma tie_cells:
  "cell tie_pivot ''A'' 2020 = Some 1" "cell tie_pivot ''B'' 2020 = Some 2"
  "cell tie_pivot ''A'' 2021 = Some 2" "cell tie_pivot ''B'' 2021 = Some 1"
  by (simp_all add: tie_pivot_eq)

lemma str_1999: "str 1999 = ''1999''"
  by (simp add: str_def str_nat.simps digit_char_def)

lemma py_int_control: "py_int (CHR 0x1F # ''2020'') = None"
  by (simp add: py_int_def strip_def is_space_def digit_value_def Let_def)

lemma py_int_spaces: "py_int '' 2020 '' = Some 2020"
  by (simp add: py_int_def strip_def is_space_def digit_value_def Let_def)

text \<open>
  The theorem on a table where the year 2020 gives the order B, A and the year 2021 the
  order A, B: at each of the two years, at a year not in the data, at a year between
  spaces, at a text that \<open>int\<close> rejects (a control character before the digits, a word),
  and at a pivot table with no years.
\<close>

theorem categories_year_witness:
  "categories ''year:2020'' tie_pivot [''B'', ''A'']
   \<and> \<not> categories ''year:2020'' tie_pivot [''A'', ''B'']
   \<and> categories ''year:2021'' tie_pivot [''A'', ''B'']
   \<and> \<not> categories ''year:2021'' tie_pivot [''B'', ''A'']
   \<and> categories ''year:1999'' tie_pivot [''A'', ''B'']
   \<and> \<not> categories ''year:1999'' tie_pivot [''B'', ''A'']
   \<and> categories ''year: 2020 '' tie_pivot [''B'', ''A'']
   \<and> categories (''year:'' @ CHR 0x1F # ''2020'') tie_pivot [''A'', ''B'']
   \<and> \<not> categories (''year:'' @ CHR 0x1F # ''2020'') tie_pivot [''B'', ''A'']
   \<and> categories ''year:latest'' tie_pivot [''A'', ''B'']
   \<and> categories ''year:2021'' empty_pivot []"
proof -
  have y: "years tie_pivot = [2020, 2021]" by (rule tie_years)
  have e: "years empty_pivot = []" by (simp add: years_def empty_pivot_eq)
  show ?thesis
    using categories_year [where y = 2020 and p = tie_pivot and cats = "[''B'', ''A'']" and t = "'' 2020 ''"]
      categories_year [where y = 2020 and p = tie_pivot and cats = "[''A'', ''B'']" and t = "''2020''"]
      categories_year [where y = 2021 and p = tie_pivot and cats = "[''A'', ''B'']" and t = "''1999''"]
      categories_year [where y = 2021 and p = tie_pivot and cats = "[''B'', ''A'']" and t = "''1999''"]
      categories_year [where y = 1999 and p = tie_pivot and cats = "[''A'', ''B'']" and t = "CHR 0x1F # ''2020''"]
      categories_year [where y = 1999 and p = tie_pivot and cats = "[''B'', ''A'']" and t = "CHR 0x1F # ''2020''"]
      categories_year [where y = 0 and p = tie_pivot and cats = "[''A'', ''B'']" and t = "''latest''"]
      categories_year [where y = 0 and p = empty_pivot and cats = "[]" and t = "''2021''"]
    by (simp add: y e str_2020 str_2021 str_1999 py_int_control py_int_spaces py_int_latest
        tie_index tie_cells descending_na_last_def empty_pivot_eq)
qed

text \<open>The theorem at the example, with a sort year that the data does not have.\<close>

theorem categories_permutation_witness:
  "aggregate (merged spec_df spec_pop) = Inr spec_pivot
   \<and> categories ''year:1999'' spec_pivot [''A'', ''B'']
   \<and> distinct [''A'', ''B''] \<and> set [''A'', ''B''] = set (index spec_pivot)"
proof -
  have a: "aggregate (merged spec_df spec_pop) = Inr spec_pivot"
    by (simp add: spec_pivot_def spec_aggregate)
  have c: "categories ''year:1999'' spec_pivot [''A'', ''B'']"
  proof -
    have "sort_year ''year:1999'' spec_pivot = Some 2021"
      using sort_year_absent [of "''1999''" spec_pivot]
      by (simp add: py_int_1999 spec_years)
    then show ?thesis
      by (simp add: categories_def startswith_def sort_values_index_def spec_index spec_cells
          descending_na_last_def)
  qed
  from categories_permutation [OF a c] a c show ?thesis by simp
qed

section \<open>Series builder\<close>

lemma digit_char_inj: "d < 10 \<Longrightarrow> e < 10 \<Longrightarrow> digit_char d = digit_char e \<Longrightarrow> d = e"
proof -
  assume a: "d < 10" "e < 10" "digit_char d = digit_char e"
  have "distinct ''0123456789''" by simp
  moreover have "d < length ''0123456789''" "e < length ''0123456789''" using a by simp_all
  ultimately show ?thesis
    using a(3) unfolding digit_char_def by (simp only: nth_eq_iff_index_eq)
qed

lemma digit_char_not_minus: "d < 10 \<Longrightarrow> digit_char d \<noteq> CHR ''-''"
proof -
  assume "d < 10"
  then have "d < length ''0123456789''" by simp
  then have "''0123456789'' ! d \<in> set ''0123456789''" by (rule nth_mem)
  then show ?thesis unfolding digit_char_def by auto
qed

lemma str_nat_no_minus: "CHR ''-'' \<notin> set (str_nat n)"
proof (induction n rule: str_nat.induct)
  case (1 n)
  show ?case
  proof (cases "n < 10")
    case True
    then show ?thesis
      using digit_char_not_minus [of n] by (subst str_nat.simps) auto
  next
    case False
    then show ?thesis
      using 1 digit_char_not_minus [of "n mod 10"] by (subst str_nat.simps) auto
  qed
qed

lemma str_nat_inj: "str_nat n = str_nat m \<Longrightarrow> n = m"
proof (induction n arbitrary: m rule: str_nat.induct)
  case (1 n)
  show ?case
  proof (cases "n < 10")
    case n: True
    show ?thesis
    proof (cases "m < 10")
      case True
      with n "1.prems" show ?thesis
        by (simp add: str_nat.simps [of n] str_nat.simps [of m] digit_char_inj)
    next
      case False
      with n "1.prems" show ?thesis
        using str_nat_nonempty [of "m div 10"]
        by (simp add: str_nat.simps [of n] str_nat.simps [of m])
    qed
  next
    case n: False
    show ?thesis
    proof (cases "m < 10")
      case True
      with n "1.prems" show ?thesis
        using str_nat_nonempty [of "n div 10"]
        by (simp add: str_nat.simps [of n] str_nat.simps [of m])
    next
      case False
      with n "1.prems" have e: "str_nat (n div 10) = str_nat (m div 10)"
        and d: "digit_char (n mod 10) = digit_char (m mod 10)"
        by (simp_all add: str_nat.simps [of n] str_nat.simps [of m])
      from "1.IH" [OF n e] have "n div 10 = m div 10" .
      moreover from d have "n mod 10 = m mod 10"
        by (rule digit_char_inj [rotated 2]) simp_all
      ultimately show ?thesis
        by (metis div_mult_mod_eq)
    qed
  qed
qed

lemma str_inj: "str a = str b \<Longrightarrow> a = b"
proof -
  assume h: "str a = str b"
  have hd: "hd (str_nat n) \<noteq> CHR ''-''" for n
    using str_nat_no_minus [of n] str_nat_nonempty [of n] by (cases "str_nat n") auto
  show ?thesis
  proof (cases "a < 0")
    case a: True
    show ?thesis
    proof (cases "b < 0")
      case True
      with a h have "nat (- a) = nat (- b)" by (auto simp: str_def dest: str_nat_inj)
      with a True show ?thesis by simp
    next
      case False
      with a h hd [of "nat b"] show ?thesis
        by (cases "str_nat (nat b)") (auto simp: str_def)
    qed
  next
    case a: False
    show ?thesis
    proof (cases "b < 0")
      case True
      with a h hd [of "nat a"] show ?thesis
        by (cases "str_nat (nat a)") (auto simp: str_def)
    next
      case False
      with a h have "nat a = nat b" by (auto simp: str_def dest: str_nat_inj)
      with a False show ?thesis by simp
    qed
  qed
qed

lemma fold_update_lookup:
  "y \<in> set ys \<Longrightarrow> fold (\<lambda>y d. d(str y \<mapsto> f y)) ys m (str y) = Some (f y)"
proof (induction ys rule: rev_induct)
  case Nil
  then show ?case by simp
next
  case (snoc x xs)
  show ?case
  proof (cases "str x = str y")
    case True
    then have "x = y" by (rule str_inj)
    then show ?thesis by simp
  next
    case False
    then have "x \<noteq> y" by auto
    with snoc False show ?thesis by simp
  qed
qed

lemma data_by_year_lookup:
  "y \<in> set (years p) \<Longrightarrow> data_by_year p cats (str y) = Some (series_for_year p cats y)"
  unfolding data_by_year_def by (rule fold_update_lookup)

lemma round_half_even_near: "\<bar>of_int (round_half_even z) - z\<bar> \<le> 1 / 2"
proof -
  have "of_int \<lfloor>z\<rfloor> \<le> z" "z < of_int \<lfloor>z\<rfloor> + 1" by linarith+
  then show ?thesis
    unfolding round_half_even_def Let_def by (auto simp: abs_le_iff)
qed

lemma round2_near: "\<exists>k::int. round2 x = of_int k / 100 \<and> \<bar>round2 x - x\<bar> \<le> 1 / 200"
proof -
  have "\<bar>of_int (round_half_even (x * 100)) - x * 100\<bar> \<le> 1 / 2"
    by (rule round_half_even_near)
  then have "\<bar>round2 x - x\<bar> \<le> 1 / 200"
    unfolding round2_def by (simp add: abs_le_iff field_simps)
  then show ?thesis unfolding round2_def by blast
qed

lemma length_series_for_year: "length (series_for_year p cats y) = length cats"
  by (simp add: series_for_year_def reindex_column_def Let_def)

lemma series_for_year_nth:
  assumes "set cats \<subseteq> set (index p)" "y \<in> set (columns p)" "i < length cats"
  shows "series_for_year p cats y ! i =
           (case cell p (cats ! i) y of None \<Rightarrow> Null | Some x \<Rightarrow> Num (round2 x))"
proof -
  have "cats ! i \<in> set (index p)" using assms(1,3) by auto
  with assms(2,3) show ?thesis
    by (simp add: series_for_year_def reindex_column_def)
qed

text \<open>
  Claim C4. For a year of the year list, the series stored under \<open>str(y)\<close> has the length
  of \<open>categories\<close>; its entry at a position is null if the pivot table has no cell for
  the country at that position and the year, and else the cell rounded to two decimals
  (a multiple of 0.01 at most 0.005 away).
\<close>

theorem series_aligned:
  assumes "categories SORT_MODE p cats" and "y \<in> set (years p)"
  shows "data_by_year p cats (str y) = Some (series_for_year p cats y)
   \<and> length (series_for_year p cats y) = length cats
   \<and> (\<forall>i<length cats. series_for_year p cats y ! i =
         (case cell p (cats ! i) y of None \<Rightarrow> Null | Some x \<Rightarrow> Num (round2 x)))
   \<and> (\<forall>x. \<exists>k::int. round2 x = of_int k / 100 \<and> \<bar>round2 x - x\<bar> \<le> 1 / 200)"
proof -
  have "mset cats = mset (index p)" using assms(1) by (rule categories_perm)
  then have s: "set cats \<subseteq> set (index p)" by (metis mset_eq_setD subset_refl)
  have y: "y \<in> set (columns p)" using assms(2) by (simp add: set_years)
  show ?thesis
    using data_by_year_lookup [OF assms(2)] length_series_for_year [of p cats y]
      series_for_year_nth [OF s y] round2_near
    by blast
qed

text \<open>The theorem at the example: the series of 2021 is 2.0 for A and null for B.\<close>

theorem series_aligned_witness:
  "categories ''total'' spec_pivot [''A'', ''B''] \<and> 2021 \<in> set (years spec_pivot)
   \<and> data_by_year spec_pivot [''A'', ''B''] ''2021'' = Some [Num 2, Null]
   \<and> series_for_year spec_pivot [''A'', ''B''] 2021 ! 1 = Null"
proof -
  have c: "categories ''total'' spec_pivot [''A'', ''B'']" by (simp add: spec_total)
  have y: "2021 \<in> set (years spec_pivot)" by (simp add: spec_years)
  from series_aligned [OF c y] c y show ?thesis
    by (simp add: str_2021 spec_series)
qed

text \<open>
  Claim C8. The example of the specification: the normalized rows, the pivot table, the
  order under "total" and the series of the year 2021.
\<close>

theorem spec_example:
  "merged spec_df spec_pop =
     [\<lparr>COUNTRY = ''A'', Country = ''A'', TIME_PERIOD = Numeric 2020, OBS_VALUE = Some 10,
       Population_millions = Some 10, Patents_per_million = Some 1\<rparr>,
      \<lparr>COUNTRY = ''A'', Country = ''A'', TIME_PERIOD = Numeric 2021, OBS_VALUE = Some 20,
       Population_millions = Some 10, Patents_per_million = Some 2\<rparr>,
      \<lparr>COUNTRY = ''B'', Country = ''B'', TIME_PERIOD = Numeric 2020, OBS_VALUE = Some 5,
       Population_millions = Some 5, Patents_per_million = Some 1\<rparr>]
   \<and> aggregate (merged spec_df spec_pop) = Inr spec_pivot
   \<and> index spec_pivot = [''A'', ''B''] \<and> columns spec_pivot = [2020, 2021]
   \<and> cell spec_pivot ''A'' 2020 = Some 1 \<and> cell spec_pivot ''A'' 2021 = Some 2
   \<and> cell spec_pivot ''B'' 2020 = Some 1 \<and> cell spec_pivot ''B'' 2021 = None
   \<and> sum_axis1 spec_pivot ''A'' = Some 3 \<and> sum_axis1 spec_pivot ''B'' = Some 1
   \<and> (\<forall>cats. categories ''total'' spec_pivot cats \<longleftrightarrow> cats = [''A'', ''B''])
   \<and> data_by_year spec_pivot [''A'', ''B''] ''2021'' = Some [Num 2, Null]"
proof -
  have a: "aggregate (merged spec_df spec_pop) = Inr spec_pivot"
    by (simp add: spec_pivot_def spec_aggregate)
  have c: "columns spec_pivot = [2020, 2021]" by (simp add: spec_pivot_eq)
  show ?thesis
    using spec_merged a spec_index c spec_cells spec_sums spec_total spec_data
    by simp
qed

text \<open>The order A, B is a result under "total" and the order B, A is not.\<close>

theorem spec_example_witness:
  "categories ''total'' spec_pivot [''A'', ''B''] \<and> \<not> categories ''total'' spec_pivot [''B'', ''A'']"
  using spec_example by simp

end
